theory Spec2Isabelle
  imports Main "HOL-Library.Sublist" "HOL-Library.FSet" "HOL-Library.AList"
begin

section \<open>Python values used by the scraper\<close>

text \<open>
  Strings are lists of characters; a character stands for one code point below 256.
  Exceptions of the source are values of \<open>error\<close>; a function that may raise returns
  \<open>error + 'a\<close> with \<open>Inl\<close> for the exception.  \<open>Abort\<close> is what \<open>click.prompt\<close> raises
  when the operator's input ends.
\<close>

datatype error = ValueError | IndexError | FileNotFoundError | Abort

text \<open>
  \<open>str.isspace\<close> on one character, which is also the class \<open>\s\<close> of \<open>re\<close> on text patterns and
  the set \<open>str.strip()\<close> and \<open>int()\<close> remove: tab to carriage return, the four separators
  28 to 31, the space, and 0x85 and 0xA0 above ASCII.
\<close>

definition isspace :: "char \<Rightarrow> bool" where
  "isspace c =
     (let n = (of_char c :: nat)
      in (9 \<le> n \<and> n \<le> 13) \<or> (28 \<le> n \<and> n \<le> 32) \<or> n = 133 \<or> n = 160)"

definition strip :: "string \<Rightarrow> string" where
  "strip s = rev (dropWhile isspace (rev (dropWhile isspace s)))"

text \<open>\<open>s.split(sep)\<close> for a one-character separator: never empty, empty pieces are kept.\<close>

fun split_on :: "char \<Rightarrow> string \<Rightarrow> string list" where
  "split_on sep [] = [[]]"
| "split_on sep (c # cs) =
     (if c = sep then [] # split_on sep cs
      else (case split_on sep cs of
              [] \<Rightarrow> [[c]]
            | w # ws \<Rightarrow> (c # w) # ws))"

text \<open>\<open>sep.join(parts)\<close> for a one-character separator.\<close>

fun join :: "char \<Rightarrow> string list \<Rightarrow> string" where
  "join sep [] = []"
| "join sep [w] = w"
| "join sep (w # ws) = w @ sep # join sep ws"

text \<open>
  \<open>str.lower()\<close> on one character: the ASCII capitals and the capitals of Latin-1
  (192 to 222 without the multiplication sign 215) move up by 32.
\<close>

definition lower_char :: "char \<Rightarrow> char" where
  "lower_char c =
     (let n = (of_char c :: nat)
      in if (65 \<le> n \<and> n \<le> 90) \<or> (192 \<le> n \<and> n \<le> 222 \<and> n \<noteq> 215)
         then char_of (n + 32) else c)"

definition lower :: "string \<Rightarrow> string" where
  "lower s = map lower_char s"

text \<open>\<open>needle in haystack\<close> on strings.\<close>

fun contains :: "string \<Rightarrow> string \<Rightarrow> bool" where
  "contains [] needle = (needle = [])"
| "contains (c # cs) needle = (prefix needle (c # cs) \<or> contains cs needle)"

text \<open>
  \<open>int(s)\<close> in base 10: surrounding whitespace is removed, one sign is allowed, then
  digits follow, with single underscores allowed between digits.  \<open>None\<close> is the
  \<open>ValueError\<close> of the source.
\<close>

definition isdigit :: "char \<Rightarrow> bool" where
  "isdigit c = (let n = (of_char c :: nat) in 48 \<le> n \<and> n \<le> 57)"

definition digit_val :: "char \<Rightarrow> int" where
  "digit_val c = int (of_char c) - 48"

fun parse_digits :: "int \<Rightarrow> bool \<Rightarrow> string \<Rightarrow> int option" where
  "parse_digits acc prev [] = (if prev then Some acc else None)"
| "parse_digits acc prev (c # cs) =
     (if isdigit c then parse_digits (10 * acc + digit_val c) True cs
      else if c = CHR ''_'' \<and> prev then parse_digits acc False cs
      else None)"

definition py_int :: "string \<Rightarrow> int option" where
  "py_int s =
     (case strip s of
        [] \<Rightarrow> None
      | c # cs \<Rightarrow>
          if c = CHR ''-'' then map_option uminus (parse_digits 0 False cs)
          else if c = CHR ''+'' then parse_digits 0 False cs
          else parse_digits 0 False (c # cs))"

section \<open>Interactive selection (interactive-scraper-module.py)\<close>

text \<open>
  A discovered page's record, as \<open>_extract_page_info\<close> builds it.  \<open>discovered_pages\<close> is a
  dictionary from URL to record; it is an association list in insertion order.
\<close>

record page_info =
  title :: string
  description :: string
  content_size :: nat
  html_size :: nat

type_synonym pages = "(string \<times> page_info) list"

text \<open>
  What the operator types: a number at the menu (\<open>click.prompt\<close> with \<open>type=int\<close>), a line
  of text, or the answer to \<open>Confirm.ask\<close>.
\<close>

datatype reply = Num int | Str string | YesNo bool

text \<open>
  One comma-separated part of the index string.  A part with a minus sign is split at
  every minus sign and must give exactly two integers, \<open>start\<close> and \<open>end\<close>; it stands for
  \<open>range(start, end + 1)\<close>.  Any other part must be one integer.
\<close>

definition parse_part :: "string \<Rightarrow> error + int list" where
  "parse_part part =
     (if CHR ''-'' \<in> set part then
        (case map py_int (split_on CHR ''-'' part) of
           [Some start, Some end] \<Rightarrow> Inr [start..end]
         | _ \<Rightarrow> Inl ValueError)
      else (case py_int part of
              Some i \<Rightarrow> Inr [i]
            | None \<Rightarrow> Inl ValueError))"

text \<open>The loop over the parts, filling the set \<open>selected_indices\<close>.\<close>

fun parse_indices :: "string list \<Rightarrow> int set \<Rightarrow> error + int set" where
  "parse_indices [] selected_indices = Inr selected_indices"
| "parse_indices (part # parts) selected_indices =
     (case parse_part part of
        Inl e \<Rightarrow> Inl e
      | Inr idxs \<Rightarrow> parse_indices parts (selected_indices \<union> set idxs))"

text \<open>
  The loop over \<open>selected_indices\<close> that appends \<open>urls[idx - 1]\<close> for every index within
  \<open>1..len(urls)\<close>.  A Python set of small integers is iterated in ascending order.
\<close>

definition pick_urls :: "string list \<Rightarrow> int set \<Rightarrow> string list" where
  "pick_urls urls selected_indices =
     map (\<lambda>idx. urls ! nat (idx - 1))
       (filter (\<lambda>idx. 1 \<le> idx \<and> idx \<le> int (length urls))
          (sorted_list_of_set selected_indices))"

definition keyword_match :: "string \<Rightarrow> string \<times> page_info \<Rightarrow> bool" where
  "keyword_match keyword p =
     (contains (lower (fst p)) (lower keyword)
      \<or> contains (lower (title (snd p))) (lower keyword)
      \<or> contains (lower (description (snd p))) (lower keyword))"

text \<open>
  \<open>select_pages_interactive\<close>, reading the operator's replies from a list.  An invalid
  menu number and a declined confirmation call the function again on the remaining
  replies.
\<close>

fun select_pages_interactive :: "pages \<Rightarrow> reply list \<Rightarrow> error + string list" where
  "select_pages_interactive discovered [] = Inl Abort"
| "select_pages_interactive discovered (Num choice # rs) =
     (if choice = 1 then Inr (map fst discovered)
      else if choice = 2 then
        (case rs of
           Str indices_str # rs' \<Rightarrow>
             (case parse_indices (split_on CHR '','' indices_str) {} of
                Inl e \<Rightarrow> Inl e
              | Inr selected_indices \<Rightarrow> Inr (pick_urls (map fst discovered) selected_indices))
         | _ \<Rightarrow> Inl Abort)
      else if choice = 3 then
        (case rs of
           Str keyword # YesNo proceed # rs' \<Rightarrow>
             (if \<not> proceed then select_pages_interactive discovered rs'
              else Inr (map fst (filter (keyword_match keyword) discovered)))
         | _ \<Rightarrow> Inl Abort)
      else if choice = 4 then Inr []
      else select_pages_interactive discovered rs)"
| "select_pages_interactive discovered (r # rs) = Inl Abort"

section \<open>The crawl (scraper-module.py, interactive-scraper-module.py)\<close>

text \<open>
  \<open>ScraperConfig\<close> of config-module.py, with the fields the crawl reads and \<open>max_depth\<close>.
\<close>

record ScraperConfig =
  domain :: string
  start_urls :: "string list"
  max_pages :: int
  respect_robots_txt :: bool
  user_agent :: string
  max_depth :: "int option"
  allowed_domains :: "string list"

text \<open>
  The network and the libraries are a parameter of the model: what a GET of a URL
  answers (an exception, or a status code and a text), what \<open>urlparse\<close> and \<open>urljoin\<close>
  compute, the \<open>href\<close> values of the anchors BeautifulSoup finds in a text, the file a
  page is written to, and the record \<open>_extract_page_info\<close> builds.
\<close>

record parsed_url =
  scheme :: string
  netloc :: string
  path :: string

datatype response = Raised | Response int string

record world =
  http_get :: "string \<Rightarrow> response"
  urlparse :: "string \<Rightarrow> parsed_url"
  urljoin :: "string \<Rightarrow> string \<Rightarrow> string"
  a_hrefs :: "string \<Rightarrow> string list"
  content_path :: "string \<Rightarrow> string"
  extract_page_info :: "string \<Rightarrow> string \<Rightarrow> page_info"

text \<open>The scraper object after \<open>__init__\<close>: its configuration and \<open>disallowed_paths\<close>.\<close>

record scraper =
  config :: ScraperConfig
  disallowed_paths :: "string list"

text \<open>\<open>line.split(":", 1)[1]\<close> for a line that has a colon.\<close>

definition after_colon :: "string \<Rightarrow> string" where
  "after_colon line = tl (dropWhile (\<lambda>c. c \<noteq> CHR '':'') line)"

text \<open>The loop of \<open>_parse_robots_txt\<close> over the lines of robots.txt.\<close>

fun robots_lines :: "string \<Rightarrow> string list \<Rightarrow> bool \<Rightarrow> string list \<Rightarrow> string list" where
  "robots_lines ua [] user_agent_applies disallowed = disallowed"
| "robots_lines ua (l # ls) user_agent_applies disallowed =
     (let line = strip l in
      if prefix ''user-agent:'' (lower line) then
        (let agent = strip (after_colon line)
         in robots_lines ua ls (agent = ''*'' \<or> contains ua agent) disallowed)
      else if user_agent_applies \<and> prefix ''disallow:'' (lower line) then
        (let p = strip (after_colon line)
         in robots_lines ua ls user_agent_applies
              (if p \<noteq> [] then disallowed @ [p] else disallowed))
      else robots_lines ua ls user_agent_applies disallowed)"

definition parse_robots_txt :: "world \<Rightarrow> ScraperConfig \<Rightarrow> string list" where
  "parse_robots_txt w cfg =
     (case http_get w (''https://'' @ domain cfg @ ''/robots.txt'') of
        Raised \<Rightarrow> []
      | Response status text \<Rightarrow>
          if status = 200
          then robots_lines (user_agent cfg) (split_on CHR 0x0A text) False []
          else [])"

definition init_scraper :: "world \<Rightarrow> ScraperConfig \<Rightarrow> scraper" where
  "init_scraper w cfg =
     \<lparr>config = cfg,
      disallowed_paths = (if respect_robots_txt cfg then parse_robots_txt w cfg else [])\<rparr>"

definition is_allowed :: "world \<Rightarrow> scraper \<Rightarrow> string \<Rightarrow> bool" where
  "is_allowed w self url =
     (let parsed_url = urlparse w url in
      if netloc parsed_url \<notin> set (allowed_domains (config self)) then False
      else \<not> list_ex (\<lambda>p. p = ''/'' \<or> prefix p (path parsed_url)) (disallowed_paths self))"

definition clean_url :: "world \<Rightarrow> string \<Rightarrow> string" where
  "clean_url w absolute_url =
     (let parsed = urlparse w absolute_url
      in scheme parsed @ ''://'' @ netloc parsed @ path parsed)"

definition extract_links :: "world \<Rightarrow> scraper \<Rightarrow> string fset \<Rightarrow> string \<Rightarrow> string \<Rightarrow> string list" where
  "extract_links w self visited text base_url =
     filter (\<lambda>u. is_allowed w self u \<and> u |\<notin>| visited)
       (map (\<lambda>href. clean_url w (urljoin w base_url href)) (a_hrefs w text))"

text \<open>
  The state of a crawl loop (\<open>scrape\<close> and \<open>discover_pages\<close>): the queue
  \<open>urls_to_visit\<close>, the set \<open>self.visited_urls\<close>, the dictionary the loop fills in
  insertion order (\<open>content_map\<close> in \<open>scrape\<close>, \<open>self.discovered_pages\<close> in
  \<open>discover_pages\<close>), and the URLs \<open>session.get\<close> was called with, in order.
\<close>

record crawl_state =
  urls_to_visit :: "string list"
  visited_urls :: "string fset"
  content_map :: "(string \<times> string) list"
  discovered_pages :: pages
  requested :: "string list"

text \<open>
  One round of the loop body of \<open>scrape\<close>; the loop enters it with a queue that is not
  empty.  An exception inside \<open>try\<close> is logged and the loop goes on.
\<close>

definition scrape_step :: "world \<Rightarrow> scraper \<Rightarrow> crawl_state \<Rightarrow> crawl_state" where
  "scrape_step w self s =
     (case urls_to_visit s of
        [] \<Rightarrow> s
      | url # rest \<Rightarrow>
          if url |\<in>| visited_urls s then s\<lparr>urls_to_visit := rest\<rparr>
          else
            (let visited = finsert url (visited_urls s);
                 s1 = s\<lparr>urls_to_visit := rest, visited_urls := visited,
                        requested := requested s @ [url]\<rparr>
             in case http_get w url of
                  Raised \<Rightarrow> s1
                | Response status text \<Rightarrow>
                    if status = 200 then
                      s1\<lparr>content_map := AList.update url (content_path w url) (content_map s),
                         urls_to_visit := rest @ extract_links w self visited text url\<rparr>
                    else s1))"

definition scrape_guard :: "scraper \<Rightarrow> crawl_state \<Rightarrow> bool" where
  "scrape_guard self s =
     (urls_to_visit s \<noteq> [] \<and> int (fcard (visited_urls s)) < max_pages (config self))"

function scrape_loop :: "world \<Rightarrow> scraper \<Rightarrow> crawl_state \<Rightarrow> crawl_state" where
  "scrape_loop w self s =
     (if scrape_guard self s then scrape_loop w self (scrape_step w self s) else s)"
  by pat_completeness auto
termination
proof (relation "inv_image (less_than <*lex*> less_than)
    (\<lambda>(w, self, s). (nat (max_pages (config self) - int (fcard (visited_urls s))),
                     length (urls_to_visit s)))")
  show "wf (inv_image (less_than <*lex*> less_than)
    (\<lambda>(w, self, s). (nat (max_pages (config self) - int (fcard (visited_urls s))),
                     length (urls_to_visit s))))"
    by (intro wf_inv_image wf_lex_prod wf_less_than)
next
  fix w :: world and self :: scraper and s :: crawl_state
  assume guard: "scrape_guard self s"
  then obtain url rest where q: "urls_to_visit s = url # rest"
    by (cases "urls_to_visit s") (auto simp: scrape_guard_def)
  have budget: "int (fcard (visited_urls s)) < max_pages (config self)"
    using guard by (simp add: scrape_guard_def)
  show "((w, self, scrape_step w self s), (w, self, s)) \<in>
    inv_image (less_than <*lex*> less_than)
      (\<lambda>(w, self, s). (nat (max_pages (config self) - int (fcard (visited_urls s))),
                       length (urls_to_visit s)))"
  proof (cases "url |\<in>| visited_urls s")
    case True
    with q show ?thesis by (simp add: scrape_step_def)
  next
    case False
    then have "fcard (finsert url (visited_urls s)) = Suc (fcard (visited_urls s))"
      by (simp add: fcard_finsert_disjoint)
    with q False budget show ?thesis
      by (auto simp: scrape_step_def Let_def split: response.splits)
  qed
qed

text \<open>\<open>scrape\<close> on a scraper whose \<open>visited_urls\<close> is still empty, as \<open>__init__\<close> leaves it.\<close>

definition scrape_init :: "scraper \<Rightarrow> crawl_state" where
  "scrape_init self =
     \<lparr>urls_to_visit = start_urls (config self), visited_urls = {||},
      content_map = [], discovered_pages = [], requested = []\<rparr>"

definition scrape :: "world \<Rightarrow> scraper \<Rightarrow> (string \<times> string) list" where
  "scrape w self = content_map (scrape_loop w self (scrape_init self))"

text \<open>
  \<open>discover_pages(max_pages)\<close> of the interactive scraper: the same loop, which records a
  page's \<open>_extract_page_info\<close> in \<open>self.discovered_pages\<close> and writes no file.
\<close>

definition discover_step :: "world \<Rightarrow> scraper \<Rightarrow> crawl_state \<Rightarrow> crawl_state" where
  "discover_step w self s =
     (case urls_to_visit s of
        [] \<Rightarrow> s
      | url # rest \<Rightarrow>
          if url |\<in>| visited_urls s then s\<lparr>urls_to_visit := rest\<rparr>
          else
            (let visited = finsert url (visited_urls s);
                 s1 = s\<lparr>urls_to_visit := rest, visited_urls := visited,
                        requested := requested s @ [url]\<rparr>
             in case http_get w url of
                  Raised \<Rightarrow> s1
                | Response status text \<Rightarrow>
                    if status = 200 then
                      s1\<lparr>discovered_pages :=
                           AList.update url (extract_page_info w url text) (discovered_pages s),
                         urls_to_visit := rest @ extract_links w self visited text url\<rparr>
                    else s1))"

definition discover_guard :: "int \<Rightarrow> crawl_state \<Rightarrow> bool" where
  "discover_guard budget s =
     (urls_to_visit s \<noteq> [] \<and> int (fcard (visited_urls s)) < budget)"

function discover_loop :: "world \<Rightarrow> scraper \<Rightarrow> int \<Rightarrow> crawl_state \<Rightarrow> crawl_state" where
  "discover_loop w self budget s =
     (if discover_guard budget s
      then discover_loop w self budget (discover_step w self s) else s)"
  by pat_completeness auto
termination
proof (relation "inv_image (less_than <*lex*> less_than)
    (\<lambda>(w, self, budget, s). (nat (budget - int (fcard (visited_urls s))),
                             length (urls_to_visit s)))")
  show "wf (inv_image (less_than <*lex*> less_than)
    (\<lambda>(w, self, budget, s). (nat (budget - int (fcard (visited_urls s))),
                             length (urls_to_visit s))))"
    by (intro wf_inv_image wf_lex_prod wf_less_than)
next
  fix w :: world and self :: scraper and budget :: int and s :: crawl_state
  assume guard: "discover_guard budget s"
  then obtain url rest where q: "urls_to_visit s = url # rest"
    by (cases "urls_to_visit s") (auto simp: discover_guard_def)
  have budget: "int (fcard (visited_urls s)) < budget"
    using guard by (simp add: discover_guard_def)
  show "((w, self, budget, discover_step w self s), (w, self, budget, s)) \<in>
    inv_image (less_than <*lex*> less_than)
      (\<lambda>(w, self, budget, s). (nat (budget - int (fcard (visited_urls s))),
                               length (urls_to_visit s)))"
  proof (cases "url |\<in>| visited_urls s")
    case True
    with q show ?thesis by (simp add: discover_step_def)
  next
    case False
    then have "fcard (finsert url (visited_urls s)) = Suc (fcard (visited_urls s))"
      by (simp add: fcard_finsert_disjoint)
    with q False budget show ?thesis
      by (auto simp: discover_step_def Let_def split: response.splits)
  qed
qed

definition discover_pages :: "world \<Rightarrow> scraper \<Rightarrow> int \<Rightarrow> crawl_state" where
  "discover_pages w self budget = discover_loop w self budget (scrape_init self)"

text \<open>\<open>scrape_selected_pages\<close>: one GET per selected URL, a file per page answered with 200.\<close>

definition scrape_selected_pages :: "world \<Rightarrow> string list \<Rightarrow> (string \<times> string) list" where
  "scrape_selected_pages w selected_urls =
     foldl (\<lambda>cm url.
              case http_get w url of
                Raised \<Rightarrow> cm
              | Response status text \<Rightarrow>
                  if status = 200 then AList.update url (content_path w url) cm else cm)
       [] selected_urls"

definition interactive_scrape ::
    "world \<Rightarrow> scraper \<Rightarrow> reply list \<Rightarrow> error + (string \<times> string) list" where
  "interactive_scrape w self replies =
     (let s = discover_pages w self (max_pages (config self)) in
      case select_pages_interactive (discovered_pages s) replies of
        Inl e \<Rightarrow> Inl e
      | Inr selected_urls \<Rightarrow>
          if selected_urls = [] then Inr []
          else Inr (scrape_selected_pages w selected_urls))"

section \<open>Text cleaning (processor-module.py)\<close>

record ProcessorConfig =
  min_content_length :: int
  remove_emails :: bool

text \<open>\<open>re.sub(r'\s+', ' ', text)\<close>: every maximal run of whitespace becomes one space.\<close>

function collapse_ws :: "string \<Rightarrow> string" where
  "collapse_ws [] = []"
| "collapse_ws (c # cs) =
     (if isspace c then CHR '' '' # collapse_ws (dropWhile isspace cs)
      else c # collapse_ws cs)"
  by pat_completeness auto
termination
  by (relation "measure length") (auto simp: length_dropWhile_le less_Suc_eq_le)

text \<open>
  \<open>_clean_text\<close>.  The substitution of the e-mail pattern by \<open>[EMAIL]\<close> is the parameter
  \<open>sub_emails\<close>; the rest is the source's: whitespace is collapsed and the ends are
  stripped, then the text is split at newlines, the lines whose stripped length is not
  above \<open>min_content_length\<close> are left out, and the rest is joined with newlines.
\<close>

definition clean_text :: "(string \<Rightarrow> string) \<Rightarrow> ProcessorConfig \<Rightarrow> string \<Rightarrow> string" where
  "clean_text sub_emails cfg text =
     (let text1 = (if remove_emails cfg then sub_emails text else text);
          text2 = strip (collapse_ws text1);
          lines = split_on (CHR 0x0A) text2;
          filtered_lines =
            filter (\<lambda>line. int (length (strip line)) > min_content_length cfg) lines
      in join (CHR 0x0A) filtered_lines)"

section \<open>Embedding generation (embeddings-module.py)\<close>

text \<open>
  A page's metadata is a dictionary from strings to strings and integers; dictionaries
  are association lists in insertion order, written with \<open>AList.update\<close> and read with
  \<open>map_of\<close>.
\<close>

datatype json = JStr string | JInt int

type_synonym metadata = "(string \<times> json) list"

type_synonym processed_content = "(string \<times> (string list \<times> metadata)) list"

type_synonym 'v embeddings_data = "(string \<times> (string list \<times> 'v list \<times> metadata)) list"

record EmbeddingConfig =
  batch_size :: int
  normalize_embeddings :: bool

text \<open>The first loop of \<open>generate_embeddings\<close>: all chunks in one list, and each URL's range.\<close>

fun collect_chunks ::
    "processed_content \<Rightarrow> string list \<Rightarrow> (string \<times> nat \<times> nat) list
       \<Rightarrow> string list \<times> (string \<times> nat \<times> nat) list" where
  "collect_chunks [] all_chunks url_to_chunk_indices = (all_chunks, url_to_chunk_indices)"
| "collect_chunks ((url, (chunks, md)) # rest) all_chunks url_to_chunk_indices =
     (let start_idx = length all_chunks;
          all_chunks' = all_chunks @ chunks;
          end_idx = length all_chunks'
      in collect_chunks rest all_chunks'
           (AList.update url (start_idx, end_idx) url_to_chunk_indices))"

text \<open>
  The batch loop \<open>for i in range(0, len(all_chunks), batch_size)\<close> for a positive step:
  the model encodes \<open>all_chunks[i:i + batch_size]\<close> and the answer is appended.
\<close>

function batch_loop ::
    "(string list \<Rightarrow> 'v list) \<Rightarrow> nat \<Rightarrow> string list \<Rightarrow> nat \<Rightarrow> 'v list \<Rightarrow> 'v list" where
  "batch_loop encode step all_chunks i embeddings =
     (if 0 < step \<and> i < length all_chunks
      then batch_loop encode step all_chunks (i + step)
             (embeddings @ encode (take step (drop i all_chunks)))
      else embeddings)"
  by pat_completeness auto
termination
  by (relation "measure (\<lambda>(encode, step, all_chunks, i, embeddings). length all_chunks - i)")
     auto

text \<open>The last loop: each URL gets \<open>embeddings[start_idx:end_idx]\<close>.\<close>

fun reorganize ::
    "processed_content \<Rightarrow> (string \<times> nat \<times> nat) list \<Rightarrow> 'v list \<Rightarrow> 'v embeddings_data
       \<Rightarrow> 'v embeddings_data" where
  "reorganize [] url_to_chunk_indices embeddings results = results"
| "reorganize ((url, (chunks, md)) # rest) url_to_chunk_indices embeddings results =
     (case map_of url_to_chunk_indices url of
        None \<Rightarrow> reorganize rest url_to_chunk_indices embeddings results
      | Some (start_idx, end_idx) \<Rightarrow>
          reorganize rest url_to_chunk_indices embeddings
            (AList.update url
               (chunks, take (end_idx - start_idx) (drop start_idx embeddings), md)
               results))"

text \<open>
  \<open>generate_embeddings\<close>.  \<open>encode b\<close> is \<open>self.model.encode\<close> with \<open>normalize_embeddings\<close>
  on the batch \<open>b\<close>.  \<open>range\<close> raises \<open>ValueError\<close> for a step of zero and is empty for a
  negative step.
\<close>

definition generate_embeddings ::
    "EmbeddingConfig \<Rightarrow> (bool \<Rightarrow> string list \<Rightarrow> 'v list) \<Rightarrow> processed_content
       \<Rightarrow> error + 'v embeddings_data" where
  "generate_embeddings cfg encode processed =
     (case collect_chunks processed [] [] of
        (all_chunks, url_to_chunk_indices) \<Rightarrow>
          if batch_size cfg = 0 then Inl ValueError
          else
            (let embeddings =
                   (if batch_size cfg < 0 then []
                    else batch_loop (encode (normalize_embeddings cfg)) (nat (batch_size cfg))
                           all_chunks 0 [])
             in Inr (reorganize processed url_to_chunk_indices embeddings [])))"

section \<open>Vector storage (storage-module.py)\<close>

text \<open>
  The two files of the storage: the index, which holds the vectors added to it in
  order, and the JSON sidecar with the keys \<open>chunks\<close> and \<open>metadata\<close>.  \<open>None\<close> is a
  file that does not exist.  A vector is the list of its components.
\<close>

record 'a storage =
  index_file :: "'a list list option"
  metadata_file :: "(string list \<times> metadata list) option"

definition chunk_text :: "string \<Rightarrow> string" where
  "chunk_text chunk = (if length chunk > 100 then take 100 chunk @ ''...'' else chunk)"

text \<open>The inner loop of \<open>save\<close> over \<open>enumerate(zip(chunks, chunk_embeddings))\<close>.\<close>

fun save_chunks ::
    "(string \<times> 'a list) list \<Rightarrow> nat \<Rightarrow> metadata
       \<Rightarrow> string list \<times> 'a list list \<times> metadata list
       \<Rightarrow> string list \<times> 'a list list \<times> metadata list" where
  "save_chunks [] i md acc = acc"
| "save_chunks ((chunk, embedding) # rest) i md (all_chunks, all_embeddings, all_metadata) =
     save_chunks rest (Suc i) md
       (all_chunks @ [chunk], all_embeddings @ [embedding],
        all_metadata @
          [AList.update ''chunk_text'' (JStr (chunk_text chunk))
             (AList.update ''chunk_id'' (JInt (int i)) md)])"

text \<open>The outer loop of \<open>save\<close> over \<open>embeddings_data.items()\<close>.\<close>

fun flatten_data ::
    "('a list) embeddings_data \<Rightarrow> string list \<times> 'a list list \<times> metadata list
       \<Rightarrow> string list \<times> 'a list list \<times> metadata list" where
  "flatten_data [] acc = acc"
| "flatten_data ((url, (chunks, chunk_embeddings, md)) # rest) acc =
     flatten_data rest (save_chunks (zip chunks chunk_embeddings) 0 md acc)"

text \<open>
  \<open>save\<close>.  \<open>np.array\<close> of an empty list has one axis, so \<open>shape[1]\<close> raises
  \<open>IndexError\<close>; vectors of different lengths do not convert to a \<open>float32\<close> matrix
  (\<open>ValueError\<close>).  Otherwise the index holds the vectors and the sidecar the two
  lists.
\<close>

definition save :: "('a list) embeddings_data \<Rightarrow> 'a storage \<Rightarrow> error + 'a storage" where
  "save embeddings_data fs =
     (case flatten_data embeddings_data ([], [], []) of
        (all_chunks, all_embeddings, all_metadata) \<Rightarrow>
          (case all_embeddings of
             [] \<Rightarrow> Inl IndexError
           | e # es \<Rightarrow>
               if list_ex (\<lambda>v. length v \<noteq> length e) es then Inl ValueError
               else Inr (fs\<lparr>index_file := Some all_embeddings,
                           metadata_file := Some (all_chunks, all_metadata)\<rparr>)))"

definition load :: "'a storage \<Rightarrow> error + ('a list list \<times> string list \<times> metadata list)" where
  "load fs =
     (case (index_file fs, metadata_file fs) of
        (Some index, Some (chunks, md)) \<Rightarrow> Inr (index, chunks, md)
      | _ \<Rightarrow> Inl FileNotFoundError)"

section \<open>The command line's pipeline (cli-module.py)\<close>

text \<open>
  \<open>main\<close> with its configuration resolved.  The run records the steps it started, its
  exit status (1 after \<open>sys.exit(1)\<close> in the handler of \<open>main\<close>), the map the scraper
  returned and the storage.  \<open>process_content\<close> of the content processor is a parameter.
\<close>

datatype stage = Scraping | Processing | Embedding | Saving

record 'a run =
  stages :: "stage list"
  exit_status :: int
  scraped :: "(string \<times> string) list"
  files :: "'a storage"

definition main ::
    "world \<Rightarrow> ((string \<times> string) list \<Rightarrow> processed_content)
       \<Rightarrow> (bool \<Rightarrow> string list \<Rightarrow> 'a list list)
       \<Rightarrow> ScraperConfig \<Rightarrow> EmbeddingConfig \<Rightarrow> bool \<Rightarrow> reply list \<Rightarrow> 'a storage \<Rightarrow> 'a run" where
  "main w process_content encode scfg ecfg interactive replies fs =
     (let self = init_scraper w scfg;
          result = (if interactive then interactive_scrape w self replies
                    else Inr (scrape w self))
      in case result of
           Inl e \<Rightarrow> \<lparr>stages = [Scraping], exit_status = 1, scraped = [], files = fs\<rparr>
         | Inr cm \<Rightarrow>
             if cm = [] then
               \<lparr>stages = [Scraping], exit_status = 0, scraped = cm, files = fs\<rparr>
             else
               (case generate_embeddings ecfg encode (process_content cm) of
                  Inl e \<Rightarrow>
                    \<lparr>stages = [Scraping, Processing, Embedding], exit_status = 1,
                     scraped = cm, files = fs\<rparr>
                | Inr embeddings_data \<Rightarrow>
                    (case save embeddings_data fs of
                       Inl e \<Rightarrow>
                         \<lparr>stages = [Scraping, Processing, Embedding, Saving], exit_status = 1,
                          scraped = cm, files = fs\<rparr>
                     | Inr fs' \<Rightarrow>
                         \<lparr>stages = [Scraping, Processing, Embedding, Saving], exit_status = 0,
                          scraped = cm, files = fs'\<rparr>)))"

section \<open>Reachable states of the crawl loops\<close>

text \<open>
  The states a crawl loop passes through, from the state it starts in: the start state,
  and the state after one more round of the loop body whenever the loop condition holds.
\<close>

inductive scrape_reach :: "world \<Rightarrow> scraper \<Rightarrow> crawl_state \<Rightarrow> crawl_state \<Rightarrow> bool"
  for w :: world and self :: scraper and s0 :: crawl_state where
  scrape_start: "scrape_reach w self s0 s0"
| scrape_round: "scrape_reach w self s0 s \<Longrightarrow> scrape_guard self s
     \<Longrightarrow> scrape_reach w self s0 (scrape_step w self s)"

inductive discover_reach :: "world \<Rightarrow> scraper \<Rightarrow> int \<Rightarrow> crawl_state \<Rightarrow> crawl_state \<Rightarrow> bool"
  for w :: world and self :: scraper and budget :: int and s0 :: crawl_state where
  discover_start: "discover_reach w self budget s0 s0"
| discover_round: "discover_reach w self budget s0 s \<Longrightarrow> discover_guard budget s
     \<Longrightarrow> discover_reach w self budget s0 (discover_step w self s)"

text \<open>
  The invariant of both loops: the visited set is within the budget (within zero for a
  negative budget), no URL was requested twice, and the requested URLs are the visited ones.
\<close>

definition crawl_inv :: "int \<Rightarrow> crawl_state \<Rightarrow> bool" where
  "crawl_inv budget s =
     (int (fcard (visited_urls s)) \<le> max 0 budget \<and> distinct (requested s)
      \<and> fset_of_list (requested s) = visited_urls s)"

text \<open>
  Where the URLs of a state come from: every URL in the queue, every requested URL and
  every key of the content map is a start URL of the configuration or passes
  \<open>_is_allowed\<close>.
\<close>

definition queue_inv :: "world \<Rightarrow> scraper \<Rightarrow> crawl_state \<Rightarrow> bool" where
  "queue_inv w self s =
     list_all (\<lambda>u. u \<in> set (start_urls (config self)) \<or> is_allowed w self u)
       (urls_to_visit s @ requested s @ map fst (content_map s))"

section \<open>A small site for evaluating the crawl\<close>

text \<open>
  The site \<open>example.com\<close>: the root links to \<open>/a\<close>, \<open>/a\<close> to \<open>/b\<close> and \<open>/private/x\<close>,
  \<open>/b\<close> to \<open>/c\<close> and back to \<open>/a\<close>; every page answers 200 and any other URL 404.  All
  links are absolute, so \<open>urljoin\<close> returns the link.  The text of robots.txt is the
  argument.
\<close>

definition site_root :: string where "site_root = ''https://example.com''"
definition site_a :: string where "site_a = ''https://example.com/a''"
definition site_b :: string where "site_b = ''https://example.com/b''"
definition site_c :: string where "site_c = ''https://example.com/c''"
definition site_private :: string where "site_private = ''https://example.com/private/x''"

definition site :: "string \<Rightarrow> world" where
  "site robots =
     \<lparr>http_get = (\<lambda>url.
          if url = ''https://example.com/robots.txt'' then Response 200 robots
          else if url = site_root then Response 200 ''to-a''
          else if url = site_a then Response 200 ''to-b''
          else if url = site_b then Response 200 ''to-c''
          else if url = site_c then Response 200 ''leaf''
          else if url = site_private then Response 200 ''leaf''
          else Response 404 []),
      urlparse = (\<lambda>url.
          if url = site_root then \<lparr>scheme = ''https'', netloc = ''example.com'', path = []\<rparr>
          else if url = site_a then \<lparr>scheme = ''https'', netloc = ''example.com'', path = ''/a''\<rparr>
          else if url = site_b then \<lparr>scheme = ''https'', netloc = ''example.com'', path = ''/b''\<rparr>
          else if url = site_c then \<lparr>scheme = ''https'', netloc = ''example.com'', path = ''/c''\<rparr>
          else if url = site_private
            then \<lparr>scheme = ''https'', netloc = ''example.com'', path = ''/private/x''\<rparr>
          else \<lparr>scheme = [], netloc = [], path = url\<rparr>),
      urljoin = (\<lambda>base href. href),
      a_hrefs = (\<lambda>text.
          if text = ''to-a'' then [site_a]
          else if text = ''to-b'' then [site_b, site_private]
          else if text = ''to-c'' then [site_c, site_a]
          else []),
      content_path = (\<lambda>url. url @ ''.html''),
      extract_page_info = (\<lambda>url text.
          \<lparr>title = text, description = ''No description'', content_size = length text,
           html_size = length text\<rparr>)\<rparr>"

text \<open>\<open>ScraperConfig(domain="example.com", ...)\<close> with the default user agent.\<close>

definition site_config :: "string list \<Rightarrow> int \<Rightarrow> int option \<Rightarrow> ScraperConfig" where
  "site_config starts budget depth =
     \<lparr>domain = ''example.com'', start_urls = starts, max_pages = budget,
      respect_robots_txt = True, user_agent = ''RAG Scraper Bot (+https://example.com/bot)'',
      max_depth = depth, allowed_domains = [''example.com'']\<rparr>"

definition robots_private :: string where
  "robots_private = ''User-agent: *'' @ [CHR 0x0A] @ ''Disallow: /private''"

definition robots_all :: string where
  "robots_all = ''User-agent: *'' @ [CHR 0x0A] @ ''Disallow: /''"

section \<open>The flattened dataset\<close>

text \<open>
  The three parallel sequences of section 4.8 of the specification, written without the
  loops of \<open>save\<close>: over the URLs in order and, within a URL, over the chunks that have an
  embedding (the pairs \<open>zip\<close> forms) in order.  A chunk's metadata is the page's metadata
  with \<open>chunk_id\<close>, its position within the page, and \<open>chunk_text\<close>, its excerpt.
\<close>

definition flat_chunks :: "('a list) embeddings_data \<Rightarrow> string list" where
  "flat_chunks data =
     concat (map (\<lambda>(url, chunks, embs, md). take (length embs) chunks) data)"

definition flat_embeddings :: "('a list) embeddings_data \<Rightarrow> 'a list list" where
  "flat_embeddings data =
     concat (map (\<lambda>(url, chunks, embs, md). take (length chunks) embs) data)"

definition flat_metadata :: "('a list) embeddings_data \<Rightarrow> metadata list" where
  "flat_metadata data =
     concat (map (\<lambda>(url, chunks, embs, md).
                    map (\<lambda>(i, chunk).
                           AList.update ''chunk_text'' (JStr (chunk_text chunk))
                             (AList.update ''chunk_id'' (JInt (int i)) md))
                      (enumerate 0 (take (length embs) chunks)))
               data)"

text \<open>Two pages, three chunks with vectors of dimension 2; and a page with a vector missing.\<close>

definition two_pages :: "int list embeddings_data" where
  "two_pages =
     [(''https://example.com/a'',
         ([''first chunk'', ''second chunk''], [[1, 2], [3, 4]],
          [(''url'', JStr ''https://example.com/a''), (''title'', JStr ''A'')])),
      (''https://example.com/b'',
         ([''third chunk''], [[5, 6]], [(''url'', JStr ''https://example.com/b'')]))]"

definition short_page :: "int list embeddings_data" where
  "short_page =
     [(''https://example.com/a'',
         ([''first chunk'', ''second chunk''], [[1, 2]],
          [(''url'', JStr ''https://example.com/a'')]))]"

definition no_files :: "int storage" where
  "no_files = \<lparr>index_file = None, metadata_file = None\<rparr>"

section \<open>Properties of the selection by index\<close>

lemma parse_part_error: "parse_part part = Inl e \<Longrightarrow> e = ValueError"
  by (auto simp: parse_part_def split: if_splits list.splits option.splits)

lemma parse_indices_raises:
  "\<exists>part \<in> set parts. parse_part part = Inl ValueError \<Longrightarrow> parse_indices parts acc = Inl ValueError"
proof (induction parts arbitrary: acc)
  case Nil
  then show ?case by simp
next
  case (Cons p ps)
  show ?case
  proof (cases "parse_part p")
    case (Inl e)
    then show ?thesis using parse_part_error by simp
  next
    case (Inr idxs)
    with Cons.prems have "\<exists>part \<in> set ps. parse_part part = Inl ValueError" by auto
    with Inr Cons.IH show ?thesis by simp
  qed
qed

lemma parse_indices_finite:
  "parse_indices parts acc = Inr S \<Longrightarrow> finite acc \<Longrightarrow> finite S"
  by (induction parts arbitrary: acc) (auto split: sum.splits)

lemma set_pick_urls:
  "finite S \<Longrightarrow> set (pick_urls urls S) = (\<lambda>i. urls ! nat (i - 1)) ` {i \<in> S. 1 \<le> i \<and> i \<le> int (length urls)}"
  by (auto simp: pick_urls_def)

lemmas eval_int = parse_part_def py_int_def strip_def isspace_def isdigit_def digit_val_def

text \<open>
  Claim C8.  At the menu choice 2 (select by index), the input \<open>1,3,5-7\<close> over eight
  discovered pages \<open>p1\<close> to \<open>p8\<close> selects \<open>p1, p3, p5, p6, p7\<close>.  In general, when the
  index string parses to the set \<open>S\<close>, the selected URLs are exactly the pages at the
  1-based positions of \<open>S\<close> that lie within \<open>1..len(urls)\<close>: an index out of range selects
  nothing and raises nothing.
\<close>

theorem by_index_selection:
  "select_pages_interactive
     [(p1, i1), (p2, i2), (p3, i3), (p4, i4), (p5, i5), (p6, i6), (p7, i7), (p8, i8)]
     (Num 2 # Str ''1,3,5-7'' # rs) = Inr [p1, p3, p5, p6, p7]
   \<and> (parse_indices (split_on CHR '','' indices_str) {} = Inr S \<longrightarrow>
        (\<exists>sel. select_pages_interactive discovered (Num 2 # Str indices_str # rs) = Inr sel
           \<and> set sel = (\<lambda>i. map fst discovered ! nat (i - 1)) `
                {i \<in> S. 1 \<le> i \<and> i \<le> int (length discovered)}))"
proof (intro conjI impI)
  show "select_pages_interactive
     [(p1, i1), (p2, i2), (p3, i3), (p4, i4), (p5, i5), (p6, i6), (p7, i7), (p8, i8)]
     (Num 2 # Str ''1,3,5-7'' # rs) = Inr [p1, p3, p5, p6, p7]"
    by (simp add: eval_int pick_urls_def sorted_list_of_set_sort_remdups)
next
  assume p: "parse_indices (split_on CHR '','' indices_str) {} = Inr S"
  then have "finite S" by (rule parse_indices_finite) simp
  then have "set (pick_urls (map fst discovered) S) = (\<lambda>i. map fst discovered ! nat (i - 1)) `
                {i \<in> S. 1 \<le> i \<and> i \<le> int (length discovered)}"
    by (simp add: set_pick_urls)
  with p show "\<exists>sel. select_pages_interactive discovered (Num 2 # Str indices_str # rs) = Inr sel
           \<and> set sel = (\<lambda>i. map fst discovered ! nat (i - 1)) `
                {i \<in> S. 1 \<le> i \<and> i \<le> int (length discovered)}"
    by simp
qed

theorem by_index_selection_witness:
  "select_pages_interactive [(''a'', \<lparr>title = ''t'', description = ''d'', content_size = 0, html_size = 0\<rparr>), (''b'', \<lparr>title = ''t'', description = ''d'', content_size = 0, html_size = 0\<rparr>), (''c'', \<lparr>title = ''t'', description = ''d'', content_size = 0, html_size = 0\<rparr>)]
     [Num 2, Str ''2,7,9-10''] = Inr [''b'']"
proof -
  have p: "parse_indices (split_on CHR '','' ''2,7,9-10'') {} = Inr {2, 7, 9, 10}"
    by (auto simp: eval_int)
  have e: "select_pages_interactive [(''a'', \<lparr>title = ''t'', description = ''d'', content_size = 0, html_size = 0\<rparr>), (''b'', \<lparr>title = ''t'', description = ''d'', content_size = 0, html_size = 0\<rparr>), (''c'', \<lparr>title = ''t'', description = ''d'', content_size = 0, html_size = 0\<rparr>)]
     [Num 2, Str ''2,7,9-10''] = Inr [''b'']"
    by (simp add: eval_int pick_urls_def sorted_list_of_set_sort_remdups)
  from by_index_selection [THEN conjunct2, rule_format, OF p,
      of "[(''a'', \<lparr>title = ''t'', description = ''d'', content_size = 0, html_size = 0\<rparr>), (''b'', \<lparr>title = ''t'', description = ''d'', content_size = 0, html_size = 0\<rparr>), (''c'', \<lparr>title = ''t'', description = ''d'', content_size = 0, html_size = 0\<rparr>)]" "[]"]
  obtain sel where "select_pages_interactive [(''a'', \<lparr>title = ''t'', description = ''d'', content_size = 0, html_size = 0\<rparr>), (''b'', \<lparr>title = ''t'', description = ''d'', content_size = 0, html_size = 0\<rparr>), (''c'', \<lparr>title = ''t'', description = ''d'', content_size = 0, html_size = 0\<rparr>)]
     [Num 2, Str ''2,7,9-10''] = Inr sel"
    by blast
  with e show ?thesis by simp
qed

text \<open>
  Claim C10.  At the menu choice 2, a part of the index string that is not an integer
  or a range of two integers (\<open>a\<close>, \<open>5-\<close> and \<open>1..3\<close> are such parts) makes
  \<open>select_pages_interactive\<close> end with \<open>ValueError\<close>, whatever the pages and whatever
  replies would follow: the part is not dropped and the menu is not shown again.
\<close>

theorem by_index_malformed_raises:
  "(parse_part ''a'' = Inl ValueError \<and> parse_part ''5-'' = Inl ValueError
      \<and> parse_part ''1..3'' = Inl ValueError)
   \<and> ((\<exists>part \<in> set (split_on CHR '','' indices_str). parse_part part = Inl ValueError) \<longrightarrow>
        select_pages_interactive discovered (Num 2 # Str indices_str # rs) = Inl ValueError)"
proof (intro conjI impI)
  assume "\<exists>part \<in> set (split_on CHR '','' indices_str). parse_part part = Inl ValueError"
  then have "parse_indices (split_on CHR '','' indices_str) {} = Inl ValueError"
    by (rule parse_indices_raises)
  then show "select_pages_interactive discovered (Num 2 # Str indices_str # rs) = Inl ValueError"
    by simp
qed (simp_all add: eval_int)

theorem by_index_malformed_raises_witness:
  "select_pages_interactive [(''a'', \<lparr>title = ''t'', description = ''d'', content_size = 0, html_size = 0\<rparr>), (''b'', \<lparr>title = ''t'', description = ''d'', content_size = 0, html_size = 0\<rparr>)] [Num 2, Str ''1,5-,2'', Num 1] = Inl ValueError"
proof -
  have "\<exists>part \<in> set (split_on CHR '','' ''1,5-,2''). parse_part part = Inl ValueError"
    by (simp add: eval_int)
  with by_index_malformed_raises [of "''1,5-,2''" "[(''a'', \<lparr>title = ''t'', description = ''d'', content_size = 0, html_size = 0\<rparr>), (''b'', \<lparr>title = ''t'', description = ''d'', content_size = 0, html_size = 0\<rparr>)]" "[Num 1]"]
  show ?thesis by blast
qed

section \<open>Properties of the crawl loops\<close>

declare scrape_loop.simps [simp del] discover_loop.simps [simp del]

lemma crawl_inv_init: "crawl_inv budget (scrape_init self)"
  by (simp add: crawl_inv_def scrape_init_def fcard_fempty)

lemma fset_of_list_snoc: "fset_of_list (xs @ [x]) = finsert x (fset_of_list xs)"
  by (induction xs) auto

lemma crawl_inv_scrape_step:
  assumes "crawl_inv (max_pages (config self)) s" and "scrape_guard self s"
  shows "crawl_inv (max_pages (config self)) (scrape_step w self s)"
proof -
  from assms(2) obtain url rest where q: "urls_to_visit s = url # rest"
    by (cases "urls_to_visit s") (auto simp: scrape_guard_def)
  show ?thesis
  proof (cases "url |\<in>| visited_urls s")
    case True
    with q assms(1) show ?thesis by (simp add: scrape_step_def crawl_inv_def)
  next
    case False
    then have c: "fcard (finsert url (visited_urls s)) = Suc (fcard (visited_urls s))"
      by (simp add: fcard_finsert_disjoint)
    have n: "url \<notin> set (requested s)"
      using False assms(1) by (auto simp: crawl_inv_def fset_of_list_elem [symmetric] simp del: fset_of_list_elem)
    from assms(2) have "int (fcard (visited_urls s)) < max_pages (config self)"
      by (simp add: scrape_guard_def)
    with q False c n assms(1) show ?thesis
      by (auto simp: scrape_step_def crawl_inv_def Let_def fset_of_list_snoc split: response.splits)
  qed
qed

lemma crawl_inv_discover_step:
  assumes "crawl_inv budget s" and "discover_guard budget s"
  shows "crawl_inv budget (discover_step w self s)"
proof -
  from assms(2) obtain url rest where q: "urls_to_visit s = url # rest"
    by (cases "urls_to_visit s") (auto simp: discover_guard_def)
  show ?thesis
  proof (cases "url |\<in>| visited_urls s")
    case True
    with q assms(1) show ?thesis by (simp add: discover_step_def crawl_inv_def)
  next
    case False
    then have c: "fcard (finsert url (visited_urls s)) = Suc (fcard (visited_urls s))"
      by (simp add: fcard_finsert_disjoint)
    have n: "url \<notin> set (requested s)"
      using False assms(1) by (auto simp: crawl_inv_def fset_of_list_elem [symmetric] simp del: fset_of_list_elem)
    from assms(2) have "int (fcard (visited_urls s)) < budget"
      by (simp add: discover_guard_def)
    with q False c n assms(1) show ?thesis
      by (auto simp: discover_step_def crawl_inv_def Let_def fset_of_list_snoc split: response.splits)
  qed
qed

lemma scrape_reach_inv:
  "scrape_reach w self (scrape_init self) s \<Longrightarrow> crawl_inv (max_pages (config self)) s"
  by (induction rule: scrape_reach.induct) (simp_all add: crawl_inv_init crawl_inv_scrape_step)

lemma discover_reach_inv:
  "discover_reach w self budget (scrape_init self) s \<Longrightarrow> crawl_inv budget s"
  by (induction rule: discover_reach.induct) (simp_all add: crawl_inv_init crawl_inv_discover_step)

lemma scrape_loop_reach:
  "scrape_reach w self s0 s \<Longrightarrow> scrape_reach w self s0 (scrape_loop w self s)"
proof (induction w self s rule: scrape_loop.induct)
  case (1 w self s)
  show ?case
  proof (cases "scrape_guard self s")
    case True
    with "1.prems" have "scrape_reach w self s0 (scrape_step w self s)"
      by (simp add: scrape_round)
    with True "1.IH" show ?thesis by (simp add: scrape_loop.simps [of w self s])
  next
    case False
    with "1.prems" show ?thesis by (simp add: scrape_loop.simps [of w self s])
  qed
qed

lemma discover_loop_reach:
  "discover_reach w self budget s0 s \<Longrightarrow> discover_reach w self budget s0 (discover_loop w self budget s)"
proof (induction w self budget s rule: discover_loop.induct)
  case (1 w self budget s)
  show ?case
  proof (cases "discover_guard budget s")
    case True
    with "1.prems" have "discover_reach w self budget s0 (discover_step w self s)"
      by (simp add: discover_round)
    with True "1.IH" show ?thesis by (simp add: discover_loop.simps [of w self budget s])
  next
    case False
    with "1.prems" show ?thesis by (simp add: discover_loop.simps [of w self budget s])
  qed
qed

text \<open>
  Claim C7.  In every state a crawl loop passes through (the loop of \<open>scrape\<close> and the
  loop of \<open>discover_pages\<close>, each started on a fresh scraper), the number of visited URLs
  is at most the page budget when the budget is not negative, and the visited set stays
  empty when it is negative; no URL is requested twice, and the requested URLs are exactly
  the visited ones.
\<close>

theorem visited_bounded_and_fetched_once:
  "(scrape_reach w self (scrape_init self) s \<longrightarrow>
      (0 \<le> max_pages (config self) \<longrightarrow> int (fcard (visited_urls s)) \<le> max_pages (config self))
      \<and> (max_pages (config self) < 0 \<longrightarrow> visited_urls s = {||})
      \<and> distinct (requested s) \<and> fset_of_list (requested s) = visited_urls s)
   \<and> (discover_reach w self budget (scrape_init self) s' \<longrightarrow>
      (0 \<le> budget \<longrightarrow> int (fcard (visited_urls s')) \<le> budget)
      \<and> (budget < 0 \<longrightarrow> visited_urls s' = {||})
      \<and> distinct (requested s') \<and> fset_of_list (requested s') = visited_urls s')"
proof (intro conjI impI)
  assume r: "scrape_reach w self (scrape_init self) s"
  note i = scrape_reach_inv [OF r]
  show "distinct (requested s)" "fset_of_list (requested s) = visited_urls s"
    using i by (simp_all add: crawl_inv_def)
  { assume "0 \<le> max_pages (config self)"
    with i show "int (fcard (visited_urls s)) \<le> max_pages (config self)"
      by (simp add: crawl_inv_def) }
  { assume "max_pages (config self) < 0"
    with i show "visited_urls s = {||}" by (simp add: crawl_inv_def) }
next
  assume r: "discover_reach w self budget (scrape_init self) s'"
  note i = discover_reach_inv [OF r]
  show "distinct (requested s')" "fset_of_list (requested s') = visited_urls s'"
    using i by (simp_all add: crawl_inv_def)
  { assume "0 \<le> budget"
    with i show "int (fcard (visited_urls s')) \<le> budget"
      by (simp add: crawl_inv_def) }
  { assume "budget < 0"
    with i show "visited_urls s' = {||}" by (simp add: crawl_inv_def) }
qed

theorem visited_bounded_and_fetched_once_witness:
  "requested (scrape_loop (site robots_private)
       (init_scraper (site robots_private) (site_config [site_a] 2 None))
       (scrape_init (init_scraper (site robots_private) (site_config [site_a] 2 None))))
     = [site_a, site_b]
   \<and> int (fcard (visited_urls (scrape_loop (site robots_private)
       (init_scraper (site robots_private) (site_config [site_a] 2 None))
       (scrape_init (init_scraper (site robots_private) (site_config [site_a] 2 None)))))) \<le> 2
   \<and> requested (discover_pages (site robots_private)
       (init_scraper (site robots_private) (site_config [site_a] 2 None)) 2)
     = [site_a, site_b]
   \<and> int (fcard (visited_urls (discover_pages (site robots_private)
       (init_scraper (site robots_private) (site_config [site_a] 2 None)) 2))) \<le> 2"
proof -
  let ?w = "site robots_private"
  let ?self = "init_scraper ?w (site_config [site_a] 2 None)"
  let ?s = "scrape_loop ?w ?self (scrape_init ?self)"
  let ?d = "discover_loop ?w ?self 2 (scrape_init ?self)"
  have r1: "scrape_reach ?w ?self (scrape_init ?self) ?s"
    by (rule scrape_loop_reach [OF scrape_start])
  have r2: "discover_reach ?w ?self 2 (scrape_init ?self) ?d"
    by (rule discover_loop_reach [OF discover_start])
  have b: "max_pages (config ?self) = 2"
    by (simp add: init_scraper_def site_config_def)
  from visited_bounded_and_fetched_once [of ?w ?self ?s 2 ?d] r1 r2
  have "0 \<le> max_pages (config ?self) \<longrightarrow> int (fcard (visited_urls ?s)) \<le> max_pages (config ?self)"
    and "(0::int) \<le> 2 \<longrightarrow> int (fcard (visited_urls ?d)) \<le> 2"
    by blast+
  then have "int (fcard (visited_urls ?s)) \<le> 2" and "int (fcard (visited_urls ?d)) \<le> 2"
    by (simp_all only: b)
  moreover have "requested ?s = [site_a, site_b]" by code_simp
  moreover have "requested ?d = [site_a, site_b]" by code_simp
  ultimately show ?thesis by (simp only: discover_pages_def)
qed

lemma extract_links_allowed:
  "u \<in> set (extract_links w self visited text base_url) \<Longrightarrow> is_allowed w self u \<and> u |\<notin>| visited"
  by (auto simp: extract_links_def)

lemma set_update_keys: "fst ` set (AList.update k v al) = insert k (fst ` set al)"
  by (induction al) auto

lemma queue_inv_scrape_step:
  assumes "queue_inv w self s" and "scrape_guard self s"
  shows "queue_inv w self (scrape_step w self s)"
proof -
  from assms(2) obtain url rest where q: "urls_to_visit s = url # rest"
    by (cases "urls_to_visit s") (auto simp: scrape_guard_def)
  have links: "\<And>text v u. u \<in> set (extract_links w self v text url) \<Longrightarrow> is_allowed w self u"
    using extract_links_allowed by blast
  from q assms(1) links show ?thesis
    by (auto simp: queue_inv_def scrape_step_def Let_def list_all_iff set_update_keys
          split: response.splits)
qed

lemma links_enqueued_allowed:
  "scrape_reach w self (scrape_init self) s \<Longrightarrow> queue_inv w self s"
proof (induction rule: scrape_reach.induct)
  case scrape_start
  show ?case by (simp add: queue_inv_def scrape_init_def list_all_iff)
next
  case (scrape_round s)
  then show ?case by (simp add: queue_inv_scrape_step)
qed

text \<open>
  Claim C1.  The links a page contributes to the queue pass \<open>_is_allowed\<close>
  (\<open>links_enqueued_allowed\<close>), but the start URLs are queued unchecked.  On the site whose
  robots.txt disallows \<open>/private\<close>, a crawl started at \<open>/private/x\<close> requests that URL
  and returns it in the content map although \<open>_is_allowed\<close> rejects it; with
  \<open>Disallow: /\<close> the default start URL, the root, is rejected by \<open>_is_allowed\<close> and is
  requested and stored all the same.
\<close>

theorem start_url_bypasses_policy:
  "disallowed_paths (init_scraper (site robots_private) (site_config [site_private] 10 None))
     = [''/private'']
   \<and> \<not> is_allowed (site robots_private)
         (init_scraper (site robots_private) (site_config [site_private] 10 None)) site_private
   \<and> requested (scrape_loop (site robots_private)
         (init_scraper (site robots_private) (site_config [site_private] 10 None))
         (scrape_init (init_scraper (site robots_private) (site_config [site_private] 10 None))))
       = [site_private]
   \<and> scrape (site robots_private)
         (init_scraper (site robots_private) (site_config [site_private] 10 None))
       = [(site_private, ''https://example.com/private/x.html'')]
   \<and> disallowed_paths (init_scraper (site robots_all) (site_config [site_root] 10 None)) = [''/'']
   \<and> \<not> is_allowed (site robots_all)
         (init_scraper (site robots_all) (site_config [site_root] 10 None)) site_root
   \<and> scrape (site robots_all) (init_scraper (site robots_all) (site_config [site_root] 10 None))
       = [(site_root, ''https://example.com.html'')]"
  by code_simp

lemma extract_links_max_depth:
  "extract_links w (self\<lparr>config := (config self)\<lparr>max_depth := d\<rparr>\<rparr>) = extract_links w self"
  by (intro ext) (simp add: extract_links_def is_allowed_def)

lemma scrape_step_max_depth:
  "scrape_step w (self\<lparr>config := (config self)\<lparr>max_depth := d\<rparr>\<rparr>) s = scrape_step w self s"
  by (simp add: scrape_step_def extract_links_max_depth Let_def split: list.split response.split)

lemma scrape_guard_max_depth:
  "scrape_guard (self\<lparr>config := (config self)\<lparr>max_depth := d\<rparr>\<rparr>) s = scrape_guard self s"
  by (simp add: scrape_guard_def)

lemma scrape_loop_max_depth:
  "scrape_loop w (self\<lparr>config := (config self)\<lparr>max_depth := d\<rparr>\<rparr>) s = scrape_loop w self s"
proof (induction w self s rule: scrape_loop.induct)
  case (1 w self s)
  show ?case
  proof (cases "scrape_guard self s")
    case True
    have "scrape_loop w (self\<lparr>config := (config self)\<lparr>max_depth := d\<rparr>\<rparr>) s
        = scrape_loop w (self\<lparr>config := (config self)\<lparr>max_depth := d\<rparr>\<rparr>) (scrape_step w self s)"
      using True
      by (simp add: scrape_loop.simps [of w "self\<lparr>config := (config self)\<lparr>max_depth := d\<rparr>\<rparr>" s]
            scrape_guard_max_depth scrape_step_max_depth)
    also have "\<dots> = scrape_loop w self (scrape_step w self s)"
      using "1.IH" True by simp
    also have "\<dots> = scrape_loop w self s"
      using True by (simp add: scrape_loop.simps [of w self s])
    finally show ?thesis .
  next
    case False
    then show ?thesis
      by (simp add: scrape_loop.simps [of w self s]
            scrape_loop.simps [of w "self\<lparr>config := (config self)\<lparr>max_depth := d\<rparr>\<rparr>" s]
            scrape_guard_max_depth)
  qed
qed

lemma scrape_ignores_max_depth:
  "scrape w (self\<lparr>config := (config self)\<lparr>max_depth := d\<rparr>\<rparr>) = scrape w self"
proof -
  have "scrape_init (self\<lparr>config := (config self)\<lparr>max_depth := d\<rparr>\<rparr>) = scrape_init self"
    by (simp add: scrape_init_def)
  then show ?thesis by (simp add: scrape_def scrape_loop_max_depth)
qed

text \<open>
  Claim C4.  \<open>max_depth\<close> is never read: a crawl gives the same result for every value of
  it (\<open>scrape_ignores_max_depth\<close>).  With \<open>max_depth = 1\<close> and the chain of links from
  \<open>/a\<close> to \<open>/b\<close> to \<open>/c\<close>, the page \<open>/c\<close> at link depth 2 is queued, requested and
  stored.
\<close>

theorem max_depth_not_enforced:
  "max_depth (config (init_scraper (site robots_private) (site_config [site_a] 10 (Some 1))))
     = Some 1
   \<and> requested (scrape_loop (site robots_private)
         (init_scraper (site robots_private) (site_config [site_a] 10 (Some 1)))
         (scrape_init (init_scraper (site robots_private) (site_config [site_a] 10 (Some 1)))))
       = [site_a, site_b, site_c]
   \<and> map fst (scrape (site robots_private)
         (init_scraper (site robots_private) (site_config [site_a] 10 (Some 1))))
       = [site_a, site_b, site_c]"
  by code_simp

section \<open>Properties of the text cleaning\<close>

lemma isspace_newline: "isspace (CHR 0x0A)"
  by (simp add: isspace_def)

lemma collapse_ws_space:
  "c \<in> set (collapse_ws s) \<Longrightarrow> isspace c \<Longrightarrow> c = CHR '' ''"
  by (induction s rule: collapse_ws.induct) (auto split: if_splits)

lemma set_strip: "set (strip s) \<subseteq> set s"
proof -
  have "set (dropWhile isspace (rev (dropWhile isspace s))) \<subseteq> set (rev (dropWhile isspace s))"
    by (meson set_dropWhileD subsetI)
  also have "\<dots> \<subseteq> set s"
    using set_dropWhileD by fastforce
  finally show ?thesis by (simp add: strip_def)
qed

lemma split_on_absent: "sep \<notin> set s \<Longrightarrow> split_on sep s = [s]"
  by (induction s) auto

lemma clean_text_one_line:
  "clean_text sub_emails cfg text =
     (let t = strip (collapse_ws (if remove_emails cfg then sub_emails text else text))
      in if int (length (strip t)) > min_content_length cfg then t else [])"
proof -
  let ?t = "strip (collapse_ws (if remove_emails cfg then sub_emails text else text))"
  have "CHR 0x0A \<notin> set ?t"
  proof
    assume "CHR 0x0A \<in> set ?t"
    then have "CHR 0x0A \<in> set (collapse_ws (if remove_emails cfg then sub_emails text else text))"
      using set_strip by blast
    then have "CHR 0x0A = CHR '' ''"
      using collapse_ws_space isspace_newline by blast
    then show False by simp
  qed
  then have "split_on (CHR 0x0A) ?t = [?t]"
    by (rule split_on_absent)
  then show ?thesis
    by (simp add: clean_text_def Let_def)
qed

text \<open>
  Claim C6.  \<open>_clean_text\<close> collapses every run of whitespace, newlines included, before
  it splits the text at newlines, so the text is always one line
  (\<open>clean_text_one_line\<close>) and no line is dropped on its own.  With the minimum length 50,
  the four-character line \<open>Home\<close> above a line of 62 characters stays in the cleaned text.
\<close>

theorem short_line_survives_cleaning:
  "clean_text (\<lambda>t. t) \<lparr>min_content_length = 50, remove_emails = False\<rparr>
     (''Home'' @ [CHR 0x0A]
        @ ''Retrieval augmented generation pipelines need clean page text.'')
   = ''Home Retrieval augmented generation pipelines need clean page text.''"
  by code_simp

section \<open>Properties of the interactive pipeline\<close>

lemma config_init_scraper: "config (init_scraper w scfg) = scfg"
  by (simp add: init_scraper_def)

text \<open>
  Claim C9.  In interactive mode, when the selection ends with no URL, the scraper returns
  an empty content map and \<open>main\<close> returns after the scraping step: processing, embedding
  and saving are not started, the storage is untouched and the exit status is 0.  The
  menu choice 4 (select none) gives the empty selection, and so does a keyword that
  matches no discovered page once the operator confirms.
\<close>

theorem empty_selection_stops_pipeline:
  "(select_pages_interactive
        (discovered_pages (discover_pages w (init_scraper w scfg) (max_pages scfg))) replies
      = Inr [] \<longrightarrow>
      interactive_scrape w (init_scraper w scfg) replies = Inr []
      \<and> main w process_content encode scfg ecfg True replies fs
          = \<lparr>stages = [Scraping], exit_status = 0, scraped = [], files = fs\<rparr>)
   \<and> select_pages_interactive discovered (Num 4 # rs) = Inr []
   \<and> (\<not> list_ex (keyword_match keyword) discovered \<longrightarrow>
        select_pages_interactive discovered (Num 3 # Str keyword # YesNo True # rs) = Inr [])"
proof (intro conjI impI)
  assume sel: "select_pages_interactive
        (discovered_pages (discover_pages w (init_scraper w scfg) (max_pages scfg))) replies
      = Inr []"
  then show i: "interactive_scrape w (init_scraper w scfg) replies = Inr []"
    by (simp add: interactive_scrape_def config_init_scraper)
  then show "main w process_content encode scfg ecfg True replies fs
          = \<lparr>stages = [Scraping], exit_status = 0, scraped = [], files = fs\<rparr>"
    by (simp add: main_def)
next
  show "select_pages_interactive discovered (Num 4 # rs) = Inr []"
    by simp
next
  assume "\<not> list_ex (keyword_match keyword) discovered"
  then have "filter (keyword_match keyword) discovered = []"
    by (simp add: list_ex_iff filter_empty_conv)
  then show "select_pages_interactive discovered (Num 3 # Str keyword # YesNo True # rs) = Inr []"
    by simp
qed

theorem empty_selection_stops_pipeline_witness:
  "main (site robots_private) (\<lambda>cm. []) (\<lambda>normalize batch. [])
     (site_config [site_a] 10 None) \<lparr>batch_size = 32, normalize_embeddings = True\<rparr> True
     [Num 3, Str ''zebra'', YesNo True]
     \<lparr>index_file = (None :: int list list option), metadata_file = None\<rparr>
   = \<lparr>stages = [Scraping], exit_status = 0, scraped = [],
      files = \<lparr>index_file = None, metadata_file = None\<rparr>\<rparr>"
proof -
  let ?w = "site robots_private"
  let ?scfg = "site_config [site_a] 10 None"
  let ?d = "discovered_pages (discover_pages ?w (init_scraper ?w ?scfg) (max_pages ?scfg))"
  have "\<not> list_ex (keyword_match ''zebra'') ?d"
    by code_simp
  with empty_selection_stops_pipeline [of ?w ?scfg "[Num 3, Str ''zebra'', YesNo True]"
      _ _ _ _ ?d "[]" "''zebra''"]
  have "select_pages_interactive ?d [Num 3, Str ''zebra'', YesNo True] = Inr []"
    by blast
  with empty_selection_stops_pipeline [of ?w ?scfg "[Num 3, Str ''zebra'', YesNo True]"
      "\<lambda>cm. []" "\<lambda>normalize batch. []" "\<lparr>batch_size = 32, normalize_embeddings = True\<rparr>"
      "\<lparr>index_file = (None :: int list list option), metadata_file = None\<rparr>"]
  show ?thesis by blast
qed

end
